theory Spec2Isabelle
  imports Main
begin

section \<open>Bytes, strings and the output writer\<close>

text \<open>
  Go strings and byte slices are sequences of bytes; a HOL \<open>string\<close> is a list of
  8-bit characters, so both are modelled as \<open>string\<close>. The two line-break bytes get names.
\<close>

abbreviation LF :: char where "LF \<equiv> CHR 0x0A"
abbreviation CR :: char where "CR \<equiv> CHR 0x0D"

text \<open>\<open>strings.HasPrefix(s, prefix)\<close>: \<open>len(s) >= len(prefix) && s[:len(prefix)] == prefix\<close>.\<close>

definition hasPrefix :: "string \<Rightarrow> string \<Rightarrow> bool" where
  "hasPrefix s p = (length p \<le> length s \<and> take (length p) s = p)"

text \<open>
  \<open>strings.Index(s, substr)\<close>: the index of the first instance of \<open>substr\<close> in \<open>s\<close>;
  Go's result \<open>-1\<close> (no instance) is \<open>None\<close>.
\<close>

fun index :: "string \<Rightarrow> string \<Rightarrow> nat option" where
  "index [] substr = (if substr = [] then Some 0 else None)"
| "index (c # cs) substr =
     (if hasPrefix (c # cs) substr then Some 0 else map_option Suc (index cs substr))"

text \<open>
  \<open>strings.TrimRight(s, cutset)\<close>: \<open>s\<close> without its trailing bytes that are in
  \<open>cutset\<close> (the only cutset the program uses is the single byte LF).
\<close>

definition trimRight :: "string \<Rightarrow> string \<Rightarrow> string" where
  "trimRight s cutset = rev (dropWhile (\<lambda>c. c \<in> set cutset) (rev s))"

section \<open>splitFrontmatter\<close>

text \<open>
  The first component is the frontmatter slice: \<open>None\<close> is Go's \<open>nil\<close> (metadata
  absent), \<open>Some fm\<close> is \<open>[]byte(fm)\<close>. The second component is the body.
  The slice \<open>s[4:]\<close> is in range because both prefixes are at least four bytes long, and
  every index into \<open>rest\<close> is guarded by \<open>bodyStart < len(rest)\<close> as in the source;
  \<open>rest[bodyStart:]\<close> is in range because an instance of the four-byte marker at
  \<open>idx\<close> gives \<open>idx + 4 \<le> len(rest)\<close>.
\<close>

definition splitFrontmatter :: "string \<Rightarrow> string option \<times> string" where
  "splitFrontmatter data =
     (let s = data in
      if \<not> hasPrefix s ''---\<newline>'' \<and> \<not> hasPrefix s (''---'' @ [CR, LF]) then (None, data)
      else
        let rest = drop 4 s in
        (case index rest ''\<newline>---'' of
           None \<Rightarrow> (None, data)
         | Some idx \<Rightarrow>
             let fm = take idx rest;
                 bodyStart = idx + 4;
                 bodyStart =
                   (if bodyStart < length rest \<and> rest ! bodyStart = LF then bodyStart + 1
                    else if bodyStart < length rest \<and> rest ! bodyStart = CR then
                      (let bodyStart = bodyStart + 1 in
                       if bodyStart < length rest \<and> rest ! bodyStart = LF then bodyStart + 1
                       else bodyStart)
                    else bodyStart)
             in (Some fm, drop bodyStart rest)))"

subsection \<open>The splitter's contract in the words of the specification\<close>

text \<open>
  The specification speaks of lines. \<open>lines_of\<close> cuts a byte string at every LF (the
  result is never empty and no line contains LF); \<open>join_lines\<close> puts LF between
  consecutive lines again.
\<close>

fun lines_of :: "string \<Rightarrow> string list" where
  "lines_of [] = [[]]"
| "lines_of (c # cs) =
     (if c = LF then [] # lines_of cs
      else (case lines_of cs of [] \<Rightarrow> [[c]] | l # ls \<Rightarrow> (c # l) # ls))"

fun join_lines :: "string list \<Rightarrow> string" where
  "join_lines [] = []"
| "join_lines [l] = l"
| "join_lines (l # l' # ls) = l @ LF # join_lines (l' # ls)"

text \<open>A line "beginning with \<open>---\<close>".\<close>

definition delimiter_line :: "string \<Rightarrow> bool" where
  "delimiter_line l = hasPrefix l ''---''"

text \<open>
  "The input begins with a line equal to \<open>---\<close> (in either line-ending convention)":
  with lines cut at LF, a first line that ended in CR LF still carries its CR.
\<close>

definition opens_with_delimiter :: "string \<Rightarrow> bool" where
  "opens_with_delimiter s = (hd (lines_of s) = ''---'' \<or> hd (lines_of s) = ''---'' @ [CR])"

text \<open>"... and contains a later line beginning with \<open>---\<close>".\<close>

definition has_later_delimiter :: "string \<Rightarrow> bool" where
  "has_later_delimiter s = list_ex delimiter_line (tl (lines_of s))"

text \<open>
  The lines strictly between the opening line and the first later line beginning with
  \<open>---\<close>, that closing line itself, and the lines after it.
\<close>

definition interior_lines :: "string \<Rightarrow> string list" where
  "interior_lines s = takeWhile (\<lambda>l. \<not> delimiter_line l) (tl (lines_of s))"

definition closing_line :: "string \<Rightarrow> string" where
  "closing_line s = hd (dropWhile (\<lambda>l. \<not> delimiter_line l) (tl (lines_of s)))"

definition lines_after_closing :: "string \<Rightarrow> string list" where
  "lines_after_closing s = tl (dropWhile (\<lambda>l. \<not> delimiter_line l) (tl (lines_of s)))"

text \<open>
  "The bytes strictly between the two delimiter lines" and "the bytes strictly after the
  closing delimiter line (leading newline of the body consumed once)".
\<close>

definition spec_metadata :: "string \<Rightarrow> string" where
  "spec_metadata s = join_lines (interior_lines s)"

definition spec_body :: "string \<Rightarrow> string" where
  "spec_body s = join_lines (lines_after_closing s)"

text \<open>
  What the source does after the closing marker: one leading line break, written LF,
  CR LF or a lone CR, is consumed.
\<close>

fun consume_line_break :: "string \<Rightarrow> string" where
  "consume_line_break [] = []"
| "consume_line_break (c # cs) =
     (if c = LF then cs
      else if c = CR then (case cs of [] \<Rightarrow> [] | d # ds \<Rightarrow> if d = LF then ds else cs)
      else c # cs)"

section \<open>The output writer and formatting\<close>

text \<open>
  The \<open>bufio.Writer\<close> on standard output is the sequence of bytes written so far; every
  write appends (write errors are ignored by the source, and the buffer is flushed once,
  when \<open>main\<close> returns).
\<close>

type_synonym writer = string

text \<open>\<open>fmt.Fprint(w, s)\<close> and \<open>w.Write(p)\<close> with one string or byte-slice operand.\<close>

definition fprint :: "writer \<Rightarrow> string \<Rightarrow> writer" where
  "fprint w s = w @ s"

text \<open>
  \<open>fmt.Fprintln(w, s)\<close>: the operand and a line break; \<open>fmt.Fprintln(w)\<close> without an
  operand is \<open>fprintln w []\<close>, a line break alone.
\<close>

definition fprintln :: "writer \<Rightarrow> string \<Rightarrow> writer" where
  "fprintln w s = w @ s @ [LF]"

text \<open>The verb \<open>%d\<close> of \<open>fmt\<close> applied to an \<open>int\<close>: decimal digits, with a sign if negative.\<close>

fun digits :: "nat \<Rightarrow> string" where
  "digits n =
     (if n < 10 then [''0123456789'' ! n]
      else digits (n div 10) @ [''0123456789'' ! (n mod 10)])"

declare digits.simps [simp del]

definition fmt_d :: "int \<Rightarrow> string" where
  "fmt_d n = (if n < 0 then CHR ''-'' # digits (nat (- n)) else digits (nat n))"

section \<open>The body tree\<close>

text \<open>
  The tree that \<open>goldmark\<close> hands to \<open>renderBody\<close>. A node is its kind and its
  children in order. The kinds that \<open>renderBody\<close> has a case for carry what the case
  reads: a heading its \<open>Level\<close>, a text run the bytes \<open>node.Segment.Value(source)\<close>
  and \<open>node.SoftLineBreak()\<close>, an emphasis its \<open>Level\<close>, a code span the bytes
  \<open>node.Text(source)\<close>, a fenced code block the bytes \<open>line.Value(source)\<close> of each of
  its \<open>Lines()\<close>. The other kinds that the parser produces are named after the
  constructs they stand for; \<open>Other\<close> is any further node type, by name.
\<close>

datatype kind =
    Document
  | Heading int
  | Paragraph
  | Text string bool
  | List
  | ListItem
  | Emphasis int
  | ThematicBreak
  | CodeSpan string
  | FencedCodeBlock "string list"
  | Link
  | Image
  | Blockquote
  | HTMLBlock
  | RawHTML
  | Other string

datatype node = Node kind "node list"

text \<open>The node kinds with a row in the mapping table of the specification (section 4.4).\<close>

fun mapped :: "kind \<Rightarrow> bool" where
  "mapped (Heading level) = True"
| "mapped Paragraph = True"
| "mapped (Text seg soft) = True"
| "mapped List = True"
| "mapped ListItem = True"
| "mapped (Emphasis level) = True"
| "mapped ThematicBreak = True"
| "mapped (CodeSpan txt) = True"
| "mapped (FencedCodeBlock ls) = True"
| "mapped Document = False"
| "mapped Link = False"
| "mapped Image = False"
| "mapped Blockquote = False"
| "mapped HTMLBlock = False"
| "mapped RawHTML = False"
| "mapped (Other name) = False"

section \<open>renderBody\<close>

datatype walk_status = WalkStop | WalkSkipChildren | WalkContinue

text \<open>
  The function literal that \<open>renderBody\<close> passes to \<open>ast.Walk\<close>: the type switch on the
  node, then \<open>return ast.WalkContinue, nil\<close>. The result is the writer after the call,
  the status and the error (\<open>None\<close> is \<open>nil\<close>). A node type without a case leaves the
  switch without executing anything. The loop of the fenced code block writes every line
  to a buffer in order, which is \<open>concat\<close>.
\<close>

definition walker :: "kind \<Rightarrow> bool \<Rightarrow> writer \<Rightarrow> writer \<times> walk_status \<times> string option" where
  "walker n entering w =
     (let w =
        (case n of
           Heading level \<Rightarrow>
             if entering then fprint w (''#heading(level: '' @ fmt_d level @ '')['')
             else fprintln (fprintln w '']'') []
         | Paragraph \<Rightarrow>
             if \<not> entering then fprintln (fprintln w []) [] else w
         | Text seg soft \<Rightarrow>
             if entering then
               (let w = fprint w seg in if soft then fprintln w [] else w)
             else w
         | List \<Rightarrow>
             if \<not> entering then fprintln w [] else w
         | ListItem \<Rightarrow>
             if entering then fprint w ''- '' else fprintln w []
         | Emphasis level \<Rightarrow>
             if level = 2 then
               (if entering then fprint w ''#strong['' else fprint w '']'')
             else
               (if entering then fprint w ''#emph['' else fprint w '']'')
         | ThematicBreak \<Rightarrow>
             if entering then fprintln (fprintln w ''#line(length: 100%)'') [] else w
         | CodeSpan txt \<Rightarrow>
             if entering then fprint w (''#raw(\"'' @ txt @ ''\")'') else w
         | FencedCodeBlock ls \<Rightarrow>
             if entering then
               (let buf = concat ls;
                    content = trimRight buf ''\<newline>''
                in fprint w (''```\<newline>'' @ content @ ''\<newline>```\<newline>\<newline>''))
             else w
         | _ \<Rightarrow> w)
      in (w, WalkContinue, None))"

text \<open>
  Modelled from the spec: \<open>ast.Walk\<close> belongs to the external parser library and is not
  part of the repository. Section 4.4 describes it: a pre-order, depth-first traversal
  with an enter and an exit event per node, the children visited strictly in their given
  order between the two. The statuses are the library's: \<open>WalkStop\<close> or an error ends the
  traversal, \<open>WalkSkipChildren\<close> on enter goes straight to the exit event.
\<close>

fun walkHelper ::
    "(kind \<Rightarrow> bool \<Rightarrow> writer \<Rightarrow> writer \<times> walk_status \<times> string option)
      \<Rightarrow> node \<Rightarrow> writer \<Rightarrow> writer \<times> walk_status \<times> string option"
  and walkChildren ::
    "(kind \<Rightarrow> bool \<Rightarrow> writer \<Rightarrow> writer \<times> walk_status \<times> string option)
      \<Rightarrow> node list \<Rightarrow> writer \<Rightarrow> writer \<times> walk_status \<times> string option"
where
  "walkHelper f (Node k cs) w =
     (case f k True w of (w1, status, err) \<Rightarrow>
        if err \<noteq> None \<or> status = WalkStop then (w1, status, err)
        else
          (case (if status \<noteq> WalkSkipChildren then walkChildren f cs w1
                 else (w1, WalkContinue, None)) of (w2, st, err2) \<Rightarrow>
             if err2 \<noteq> None \<or> st = WalkStop then (w2, WalkStop, err2)
             else
               (case f k False w2 of (w3, status, err) \<Rightarrow>
                  if err \<noteq> None \<or> status = WalkStop then (w3, WalkStop, err)
                  else (w3, WalkContinue, None))))"
| "walkChildren f [] w = (w, WalkContinue, None)"
| "walkChildren f (c # cs) w =
     (case walkHelper f c w of (w1, st, err) \<Rightarrow>
        if err \<noteq> None \<or> st = WalkStop then (w1, WalkStop, err)
        else walkChildren f cs w1)"

definition Walk ::
    "node \<Rightarrow> (kind \<Rightarrow> bool \<Rightarrow> writer \<Rightarrow> writer \<times> walk_status \<times> string option)
      \<Rightarrow> writer \<Rightarrow> writer \<times> string option" where
  "Walk n f w = (case walkHelper f n w of (w', status, err) \<Rightarrow> (w', err))"

text \<open>
  \<open>renderBody\<close> parses the body with the external parser, a parameter here, and walks the
  tree; the value that \<open>ast.Walk\<close> returns is discarded, as in the source.
\<close>

definition renderBody :: "(string \<Rightarrow> node) \<Rightarrow> writer \<Rightarrow> string \<Rightarrow> writer" where
  "renderBody parse w source = (let doc = parse source in fst (Walk doc walker w))"

text \<open>What the walk of one tree, and of a sequence of sibling trees, writes to an empty writer.\<close>

definition rendered :: "node \<Rightarrow> string" where
  "rendered n = fst (Walk n walker [])"

definition rendered_children :: "node list \<Rightarrow> string" where
  "rendered_children cs = concat (map rendered cs)"

section \<open>writePageSetup\<close>

record Frontmatter =
  Title :: string

text \<open>
  The verb \<open>%q\<close> of \<open>fmt\<close> (\<open>strconv.Quote\<close>, a double-quoted and escaped string literal)
  belongs to the standard library; it is the parameter \<open>quote\<close>. The verb \<open>%s\<close> is the
  operand itself.
\<close>

definition writePageSetup :: "(string \<Rightarrow> string) \<Rightarrow> writer \<Rightarrow> Frontmatter \<Rightarrow> writer" where
  "writePageSetup quote w meta =
     (let w = fprintln w ''#set page(paper: \"a4\")'';
          w = fprintln w ''#set text(font: \"SimSun\", size: 12pt, lang: \"zh\")'';
          w = fprintln w ''#set par(leading: 1.5em, first-line-indent: 2em)'';
          w = fprintln w []
      in
        if Title meta \<noteq> [] then
          (let w = fprint w (''#let title = '' @ quote (Title meta) @ ''\<newline>'');
               w = fprintln w [];
               w = fprint w (''#align(center, text(size: 22pt, weight: \"bold\")['' @ Title meta @ ''])\<newline>'');
               w = fprintln w ''#v(1em)'';
               w = fprintln w []
           in w)
        else w)"

section \<open>main\<close>

text \<open>
  The two fatal exits of \<open>main\<close>, each with the text of the error it reports. Both write
  a diagnostic to standard error and call \<open>os.Exit(1)\<close>; nothing has been written to
  standard output before either.
\<close>

datatype fatal = IOError string | ParseError string

fun diagnostic :: "fatal \<Rightarrow> string" where
  "diagnostic (IOError e) = ''error reading stdin: '' @ e @ ''\<newline>''"
| "diagnostic (ParseError e) = ''error parsing frontmatter: '' @ e @ ''\<newline>''"

fun exit_status :: "fatal + string \<Rightarrow> nat" where
  "exit_status (Inl f) = 1"
| "exit_status (Inr out) = 0"

fun stderr_bytes :: "fatal + string \<Rightarrow> string" where
  "stderr_bytes (Inl f) = diagnostic f"
| "stderr_bytes (Inr out) = []"

fun stdout_bytes :: "fatal + string \<Rightarrow> string" where
  "stdout_bytes (Inl f) = []"
| "stdout_bytes (Inr out) = out"

text \<open>
  \<open>main\<close> from the read of standard input on, that is with none of the flags
  \<open>-manifest\<close>, \<open>-example\<close>, \<open>-version\<close> given (each of them returns before any input is
  read). \<open>stdin\<close> is the result of \<open>io.ReadAll(os.Stdin)\<close>. \<open>unmarshal\<close> is
  \<open>yaml.Unmarshal\<close> into a zero-valued \<open>Frontmatter\<close>: the error text, or the decoded
  record. \<open>slice_bytes\<close> reads a byte slice: a \<open>nil\<close> slice holds no bytes, so
  its \<open>len\<close> is 0.
\<close>

definition slice_bytes :: "string option \<Rightarrow> string" where
  "slice_bytes fm = (case fm of None \<Rightarrow> [] | Some b \<Rightarrow> b)"

definition main ::
    "(string \<Rightarrow> string + Frontmatter) \<Rightarrow> (string \<Rightarrow> string) \<Rightarrow> (string \<Rightarrow> node)
      \<Rightarrow> string + string \<Rightarrow> fatal + string" where
  "main unmarshal quote parse stdin =
     (case stdin of
        Inl err \<Rightarrow> Inl (IOError err)
      | Inr input \<Rightarrow>
          (case splitFrontmatter input of (fm, body) \<Rightarrow>
             (case (if length (slice_bytes fm) > 0
                    then (case unmarshal (slice_bytes fm) of
                            Inl err \<Rightarrow> Inl (ParseError err)
                          | Inr meta \<Rightarrow> Inr meta)
                    else Inr \<lparr>Title = []\<rparr>) of
                Inl f \<Rightarrow> Inl f
              | Inr meta \<Rightarrow>
                  (let w = [];
                       w = writePageSetup quote w meta;
                       w = renderBody parse w body
                   in Inr w))))"

subsection \<open>A sample of the external decoder and parser\<close>

text \<open>
  \<open>yaml.Unmarshal\<close> belongs to the library \<open>gopkg.in/yaml.v3\<close>, outside the repository,
  and \<open>main\<close> takes it as a parameter. To evaluate \<open>main\<close> on concrete inputs, two rows of
  what the library does with a zero-valued \<open>Frontmatter\<close> are written down:
  \<^item> the block \<open>title: Report\<close> is a mapping whose value is a plain scalar; it decodes,
    and \<open>Title\<close> is \<open>Report\<close>;
  \<^item> the block \<open>title: [a, b]\<close> is a mapping whose value is a flow sequence of two plain
    scalars; it is well-formed in the serialization format, but a sequence cannot be
    decoded into the string field \<open>Title\<close>, and the library returns an error.

  \<open>well_formed_sample\<close> holds of these two blocks, both well-formed in the format. On
  every other block \<open>unmarshal_sample\<close> returns the zero-valued record; nothing is
  concluded from that default.
\<close>

definition well_formed_sample :: "string \<Rightarrow> bool" where
  "well_formed_sample b = (b = ''title: Report'' \<or> b = ''title: [a, b]'')"

definition unmarshal_sample :: "string \<Rightarrow> string + Frontmatter" where
  "unmarshal_sample b =
     (if b = ''title: [a, b]'' then
        Inl ''yaml: unmarshal errors:\<newline>  line 1: cannot unmarshal !!seq into string''
      else if b = ''title: Report'' then Inr \<lparr>Title = ''Report''\<rparr>
      else Inr \<lparr>Title = []\<rparr>)"

text \<open>A result of the external parser for such evaluations: the document without children.\<close>

definition empty_document :: "string \<Rightarrow> node" where
  "empty_document source = Node Document []"

section \<open>Facts about the string functions\<close>

lemma hasPrefix_Nil [simp]: "hasPrefix s [] = True"
  by (simp add: hasPrefix_def)

lemma hasPrefix_Nil_left [simp]: "hasPrefix [] (p # ps) = False"
  by (simp add: hasPrefix_def)

lemma hasPrefix_Cons [simp]: "hasPrefix (c # cs) (p # ps) = (c = p \<and> hasPrefix cs ps)"
  by (auto simp: hasPrefix_def)

lemma hasPrefix_append: "hasPrefix (p @ t) p"
  by (simp add: hasPrefix_def)

lemma hasPrefix_decompose: "hasPrefix s p \<Longrightarrow> s = p @ drop (length p) s"
  by (metis append_take_drop_id hasPrefix_def)

lemma hasPrefix_common:
  "length p \<le> length u \<Longrightarrow> hasPrefix (u @ t) p = hasPrefix (u @ t') p"
  by (simp add: hasPrefix_def)

lemma index_bound: "index s p = Some i \<Longrightarrow> i + length p \<le> length s"
proof (induction s arbitrary: i)
  case Nil
  then show ?case by (simp split: if_splits)
next
  case (Cons c cs)
  then show ?case by (auto simp: hasPrefix_def split: if_splits)
qed

lemma index_hit: "index s p = Some i \<Longrightarrow> hasPrefix (drop i s) p"
proof (induction s arbitrary: i)
  case Nil
  then show ?case by (simp split: if_splits)
next
  case (Cons c cs)
  then show ?case by (auto split: if_splits)
qed

lemma index_at_start: "hasPrefix s p \<Longrightarrow> index s p = Some 0"
  by (cases s) (auto simp: hasPrefix_def)

lemma index_take: "index s p = Some i \<Longrightarrow> index (take i s @ p @ t) p = Some i"
proof (induction s arbitrary: i)
  case Nil
  then show ?case by (simp add: index_at_start split: if_splits)
next
  case (Cons c cs)
  show ?case
  proof (cases "hasPrefix (c # cs) p")
    case True
    with Cons.prems have "i = 0" by simp
    then show ?thesis by (simp add: index_at_start hasPrefix_append)
  next
    case False
    with Cons.prems obtain j where j: "index cs p = Some j" and i: "i = Suc j"
      by auto
    from index_hit [OF j] have "drop j cs = p @ drop (length p) (drop j cs)"
      by (rule hasPrefix_decompose)
    then have cs: "c # cs = (c # take j cs @ p) @ drop (length p) (drop j cs)"
      by (metis append_Cons append_assoc append_take_drop_id)
    have "hasPrefix ((c # take j cs @ p) @ t) p = hasPrefix ((c # take j cs @ p) @ drop (length p) (drop j cs)) p"
      by (rule hasPrefix_common) simp
    with False cs have "\<not> hasPrefix (c # take j cs @ p @ t) p" by simp
    then show ?thesis using Cons.IH [OF j] i by simp
  qed
qed

text \<open>Trimming LF on the right removes a run of LF and leaves no LF at the end.\<close>

lemma dropWhile_replicate: "\<exists>k. xs = replicate k a @ dropWhile (\<lambda>c. c = a) xs"
proof (induction xs)
  case Nil
  show ?case by simp
next
  case (Cons x xs)
  then obtain k where k: "xs = replicate k a @ dropWhile (\<lambda>c. c = a) xs" by blast
  show ?case
  proof (cases "x = a")
    case True
    with k have "x # xs = replicate (Suc k) a @ dropWhile (\<lambda>c. c = a) (x # xs)" by simp
    then show ?thesis by blast
  next
    case False
    then have "x # xs = replicate 0 a @ dropWhile (\<lambda>c. c = a) (x # xs)" by simp
    then show ?thesis by blast
  qed
qed

lemma takeWhile_dropWhile_Nil: "takeWhile P (dropWhile P xs) = []"
  by (induction xs) auto

lemma trimRight_LF_decompose: "\<exists>k. s = trimRight s ''\<newline>'' @ replicate k LF"
proof -
  obtain k where "rev s = replicate k LF @ dropWhile (\<lambda>c. c = LF) (rev s)"
    using dropWhile_replicate [of "rev s" LF] by blast
  then have "rev (rev s) = rev (replicate k LF @ dropWhile (\<lambda>c. c = LF) (rev s))"
    by simp
  then have "s = trimRight s ''\<newline>'' @ replicate k LF"
    by (simp add: trimRight_def)
  then show ?thesis by blast
qed

lemma trimRight_LF_end: "takeWhile (\<lambda>c. c = LF) (rev (trimRight s ''\<newline>'')) = []"
  by (simp add: trimRight_def takeWhile_dropWhile_Nil)

section \<open>Lines and the marker search\<close>

lemma join_lines_Cons: "ls \<noteq> [] \<Longrightarrow> join_lines (l # ls) = l @ LF # join_lines ls"
  by (cases ls) auto

lemma join_lines_Cons_Cons: "join_lines ((c # l) # ls) = c # join_lines (l # ls)"
  by (cases ls) auto

lemma join_lines_drop: "n \<le> length l \<Longrightarrow> drop n (join_lines (l # ls)) = join_lines (drop n l # ls)"
  by (cases ls) auto

lemma lines_of_nonempty [simp]: "lines_of s \<noteq> []"
  by (induction s) (auto split: list.splits)

lemma join_lines_of [simp]: "join_lines (lines_of s) = s"
proof (induction s)
  case Nil
  show ?case by simp
next
  case (Cons c cs)
  obtain l ls where l: "lines_of cs = l # ls"
    by (cases "lines_of cs") auto
  with Cons show ?case
    by (cases ls) (auto simp: join_lines_Cons)
qed

lemma hd_lines_Cons: "hd (lines_of (c # cs)) = (if c = LF then [] else c # hd (lines_of cs))"
  by (cases "lines_of cs") auto

lemma lines_decompose:
  assumes "tl (lines_of s) \<noteq> []"
  shows "s = hd (lines_of s) @ LF # join_lines (tl (lines_of s))"
proof -
  have "join_lines (hd (lines_of s) # tl (lines_of s)) = hd (lines_of s) @ LF # join_lines (tl (lines_of s))"
    using assms by (rule join_lines_Cons)
  then show ?thesis by simp
qed

lemma delimiter_hd_lines: "delimiter_line (hd (lines_of s)) = hasPrefix s ''---''"
proof (cases s)
  case Nil
  then show ?thesis by (simp add: delimiter_line_def)
next
  case s1: (Cons a s1)
  show ?thesis
  proof (cases s1)
    case Nil
    with s1 show ?thesis by (simp add: delimiter_line_def hd_lines_Cons del: lines_of.simps(2))
  next
    case s2: (Cons b s2)
    show ?thesis
    proof (cases s2)
      case Nil
      with s1 s2 show ?thesis by (simp add: delimiter_line_def hd_lines_Cons del: lines_of.simps(2))
    next
      case (Cons c s3)
      with s1 s2 show ?thesis by (auto simp: delimiter_line_def hd_lines_Cons simp del: lines_of.simps(2))
    qed
  qed
qed

text \<open>
  The first instance of the marker LF \<open>---\<close> sits at the first later line that begins
  with \<open>---\<close>: the bytes before it are the lines before that line, the bytes after it
  are the rest of that line and the lines after it.
\<close>

lemma index_lines:
  "index s ''\<newline>---'' = Some i \<Longrightarrow>
     take i s = join_lines (hd (lines_of s) # takeWhile (\<lambda>l. \<not> delimiter_line l) (tl (lines_of s))) \<and>
     dropWhile (\<lambda>l. \<not> delimiter_line l) (tl (lines_of s)) \<noteq> [] \<and>
     drop (i + 4) s =
       join_lines (drop 3 (hd (dropWhile (\<lambda>l. \<not> delimiter_line l) (tl (lines_of s))))
                   # tl (dropWhile (\<lambda>l. \<not> delimiter_line l) (tl (lines_of s))))"
proof (induction s arbitrary: i)
  case Nil
  then show ?case by simp
next
  case (Cons c cs)
  obtain l ls where l: "lines_of cs = l # ls"
    by (cases "lines_of cs") auto
  have dl: "delimiter_line l = hasPrefix cs ''---''"
    using delimiter_hd_lines [of cs] l by simp
  show ?case
  proof (cases "hasPrefix (c # cs) ''\<newline>---''")
    case True
    then have c: "c = LF" and p: "hasPrefix cs ''---''" by simp_all
    from True Cons.prems have i: "i = 0" by simp
    from p obtain r where r: "cs = ''---'' @ r"
      using hasPrefix_decompose by fastforce
    have cs: "cs = join_lines (l # ls)" using l join_lines_of [of cs] by simp
    have len: "3 \<le> length l" using p dl by (simp add: delimiter_line_def hasPrefix_def)
    have "drop 3 cs = join_lines (drop 3 l # ls)"
      using cs len by (simp add: join_lines_drop)
    then show ?thesis using i c l p dl by simp
  next
    case False
    with Cons.prems obtain j where j: "index cs ''\<newline>---'' = Some j" and i: "i = Suc j"
      by auto
    note IH = Cons.IH [OF j]
    have "i + 4 = Suc (j + 4)" using i by simp
    then have dr: "drop (i + 4) (c # cs) = drop (j + 4) cs" by (simp only: drop_Suc_Cons)
    show ?thesis
    proof (cases "c = LF")
      case True
      with False have "\<not> hasPrefix cs ''---''" by simp
      then have "\<not> delimiter_line l" using dl by simp
      then show ?thesis using IH True i l unfolding dr by (simp add: join_lines_Cons)
    next
      case False
      then show ?thesis using IH i l unfolding dr by (simp add: join_lines_Cons_Cons)
    qed
  qed
qed

lemma index_None_lines:
  "index s ''\<newline>---'' = None \<Longrightarrow> \<not> list_ex delimiter_line (tl (lines_of s))"
proof (induction s)
  case Nil
  then show ?case by simp
next
  case (Cons c cs)
  obtain l ls where l: "lines_of cs = l # ls"
    by (cases "lines_of cs") auto
  have dl: "delimiter_line l = hasPrefix cs ''---''"
    using delimiter_hd_lines [of cs] l by simp
  from Cons.prems have np: "\<not> hasPrefix (c # cs) ''\<newline>---''" and n: "index cs ''\<newline>---'' = None"
    by (auto split: if_splits)
  show ?case
    using Cons.IH [OF n] np l dl by (cases "c = LF") auto
qed

lemma later_of_index:
  assumes "index s ''\<newline>---'' = Some i"
  shows "list_ex delimiter_line (tl (lines_of s))"
proof -
  from index_lines [OF assms]
  have "dropWhile (\<lambda>l. \<not> delimiter_line l) (tl (lines_of s)) \<noteq> []" by simp
  then show ?thesis by (auto simp: list_ex_iff dropWhile_eq_Nil_conv)
qed

section \<open>splitFrontmatter, evaluated\<close>

text \<open>
  The index arithmetic on \<open>bodyStart\<close> consumes one line break after the marker.
\<close>

lemma drop_step: "drop n xs = a # r \<Longrightarrow> n < length xs \<and> xs ! n = a \<and> drop (n + 1) xs = r"
proof -
  assume d: "drop n xs = a # r"
  then have n: "n < length xs" by (cases "n < length xs") auto
  from Cons_nth_drop_Suc [OF n] d have "xs ! n = a" "drop (Suc n) xs = r" by simp_all
  with n show ?thesis by simp
qed

lemma bodyStart_consume:
  "(let bodyStart = idx + 4;
        bodyStart =
          (if bodyStart < length rest \<and> rest ! bodyStart = LF then bodyStart + 1
           else if bodyStart < length rest \<and> rest ! bodyStart = CR then
             (let bodyStart = bodyStart + 1 in
              if bodyStart < length rest \<and> rest ! bodyStart = LF then bodyStart + 1
              else bodyStart)
           else bodyStart)
    in drop bodyStart rest) = consume_line_break (drop (idx + 4) rest)"
proof (cases "drop (idx + 4) rest")
  case Nil
  then show ?thesis by (simp add: Let_def)
next
  case (Cons a r)
  note s1 = drop_step [OF Cons]
  show ?thesis
  proof (cases r)
    case Nil
    with s1 Cons show ?thesis by (simp add: Let_def)
  next
    case r: (Cons b r')
    from s1 r have "drop (idx + 4 + 1) rest = b # r'" by simp
    note s2 = drop_step [OF this]
    from s1 s2 Cons r show ?thesis by (simp add: Let_def)
  qed
qed

lemma split_eval:
  assumes "hasPrefix s ''---\<newline>'' \<or> hasPrefix s (''---'' @ [CR, LF])"
  shows "splitFrontmatter s =
     (case index (drop 4 s) ''\<newline>---'' of
        None \<Rightarrow> (None, s)
      | Some i \<Rightarrow> (Some (take i (drop 4 s)), consume_line_break (drop (i + 4) (drop 4 s))))"
proof (cases "index (drop 4 s) ''\<newline>---''")
  case None
  then show ?thesis using assms by (simp add: splitFrontmatter_def)
next
  case (Some i)
  show ?thesis
    using assms Some bodyStart_consume [of i "drop 4 s"]
    by (simp add: splitFrontmatter_def Let_def)
qed

lemma split_no_prefix:
  "\<not> hasPrefix s ''---\<newline>'' \<Longrightarrow> \<not> hasPrefix s (''---'' @ [CR, LF]) \<Longrightarrow> splitFrontmatter s = (None, s)"
  by (simp add: splitFrontmatter_def)

lemma consume_after_marker:
  "c = ''---'' \<or> c = ''---'' @ [CR] \<Longrightarrow>
     consume_line_break (join_lines (drop 3 c # after)) = join_lines after"
  by (cases after) (auto simp: join_lines_Cons)

text \<open>
  Two inputs on which the marker search and the line reading of a header part: a closing
  line directly after the opening line is not found, because the search starts behind the
  LF that the marker begins with; and after an opening line ended by CR LF the slice
  \<open>s[4:]\<close> still holds the LF of that line, which becomes the first metadata byte.
\<close>

lemma split_empty_block:
  "splitFrontmatter ''---\<newline>---\<newline>body'' = (None, ''---\<newline>---\<newline>body'')"
  by (simp add: split_eval)

lemma split_CRLF_opening:
  "splitFrontmatter (''---'' @ [CR, LF] @ ''a'' @ [CR, LF] @ ''---'' @ [CR, LF] @ ''c'')
     = (Some ([LF] @ ''a'' @ [CR]), ''c'')"
  by (simp add: split_eval)

text \<open>
  Whenever a header was recognised, the reconstruction from the metadata block and the
  body splits into the same pair again: the block holds no earlier instance of the marker,
  and the LF written after the marker is the line break that is consumed.
\<close>

lemma resplit_recognised:
  assumes "splitFrontmatter data = (Some m, b)"
  shows "splitFrontmatter (''---\<newline>'' @ m @ ''\<newline>---\<newline>'' @ b) = (Some m, b)"
proof -
  have p: "hasPrefix data ''---\<newline>'' \<or> hasPrefix data (''---'' @ [CR, LF])"
    using assms split_no_prefix [of data] by auto
  from assms split_eval [OF p]
  obtain i where i: "index (drop 4 data) ''\<newline>---'' = Some i" and m: "m = take i (drop 4 data)"
    by (cases "index (drop 4 data) ''\<newline>---''") auto
  from index_bound [OF i] have len: "length m = i" using m by simp
  have idx: "index (m @ ''\<newline>---'' @ LF # b) ''\<newline>---'' = Some i"
    using index_take [OF i] m by simp
  have "hasPrefix (''---\<newline>'' @ m @ ''\<newline>---\<newline>'' @ b) ''---\<newline>''"
    by simp
  then have "splitFrontmatter (''---\<newline>'' @ m @ ''\<newline>---\<newline>'' @ b) =
      (Some (take i (m @ ''\<newline>---'' @ LF # b)),
       consume_line_break (drop (i + 4) (m @ ''\<newline>---'' @ LF # b)))"
    using idx by (simp add: split_eval)
  then show ?thesis using len by simp
qed

lemma resplit_recognised_example:
  "splitFrontmatter (''---\<newline>a\<newline>---'' @ [CR, LF] @ ''b'') = (Some ''a'', ''b'')
   \<and> splitFrontmatter (''---\<newline>'' @ ''a'' @ ''\<newline>---\<newline>'' @ ''b'') = (Some ''a'', ''b'')"
proof -
  have h: "splitFrontmatter (''---\<newline>a\<newline>---'' @ [CR, LF] @ ''b'') = (Some ''a'', ''b'')"
    by (simp add: split_eval)
  from h resplit_recognised [OF h] show ?thesis by (rule conjI)
qed

text \<open>
  When no header was recognised, the reconstruction from an empty metadata block and the
  body splits into an empty, but present, block and the same body.
\<close>

lemma reconstruct_without_header:
  "splitFrontmatter data = (None, b) \<Longrightarrow>
     splitFrontmatter (''---\<newline>'' @ slice_bytes None @ ''\<newline>---\<newline>'' @ b) = (Some [], b)"
  by (simp add: split_eval slice_bytes_def)

section \<open>The walk, evaluated\<close>

text \<open>
  The function literal only appends to the writer and always continues, so a walk
  appends, for every node, what the node writes on enter, what its children write in
  order, and what the node writes on exit.
\<close>

lemma walker_status: "snd (walker k entering w) = (WalkContinue, None)"
  by (simp add: walker_def Let_def)

lemma walker_append: "fst (walker k entering w) = w @ fst (walker k entering [])"
  by (cases k) (simp_all add: walker_def Let_def fprint_def fprintln_def)

lemma walker_eq: "walker k entering w = (w @ fst (walker k entering []), WalkContinue, None)"
  using walker_status [of k entering w] walker_append [of k entering w]
  by (metis prod.collapse)

lemma walker_unmapped: "\<not> mapped k \<Longrightarrow> walker k entering w = (w, WalkContinue, None)"
  by (cases k) (simp_all add: walker_def)

lemma walkChildren_of:
  assumes "\<And>c w. c \<in> set cs \<Longrightarrow> walkHelper walker c w = (w @ rendered c, WalkContinue, None)"
  shows "walkChildren walker cs w = (w @ rendered_children cs, WalkContinue, None)"
  using assms by (induction cs arbitrary: w) (simp_all add: rendered_children_def)

lemma walkHelper_node:
  assumes "\<And>c w. c \<in> set cs \<Longrightarrow> walkHelper walker c w = (w @ rendered c, WalkContinue, None)"
  shows "walkHelper walker (Node k cs) w =
           (w @ fst (walker k True []) @ rendered_children cs @ fst (walker k False []),
            WalkContinue, None)"
proof -
  define e1 where "e1 = fst (walker k True [])"
  define e2 where "e2 = fst (walker k False [])"
  have 1: "walker k True w = (w @ e1, WalkContinue, None)"
    unfolding e1_def by (rule walker_eq)
  have 2: "walker k False (w @ e1 @ rendered_children cs) = (w @ e1 @ rendered_children cs @ e2, WalkContinue, None)"
    unfolding e2_def using walker_eq [of k False "w @ e1 @ rendered_children cs"] by simp
  have 3: "walkChildren walker cs (w @ e1) = (w @ e1 @ rendered_children cs, WalkContinue, None)"
    using walkChildren_of [OF assms, of cs "w @ e1"] by simp
  show ?thesis
    unfolding e1_def [symmetric] e2_def [symmetric] by (simp add: 1 2 3)
qed

lemma walkHelper_rendered: "walkHelper walker n w = (w @ rendered n, WalkContinue, None)"
proof (induction n arbitrary: w)
  case (Node k cs)
  have "rendered (Node k cs) = fst (walker k True []) @ rendered_children cs @ fst (walker k False [])"
    using walkHelper_node [OF Node.IH, of cs k "[]"] by (simp add: rendered_def Walk_def)
  then show ?case
    using walkHelper_node [OF Node.IH, of cs k w] by simp
qed

lemma rendered_Node:
  "rendered (Node k cs) = fst (walker k True []) @ rendered_children cs @ fst (walker k False [])"
proof -
  have "walkHelper walker (Node k cs) [] =
          ([] @ fst (walker k True []) @ rendered_children cs @ fst (walker k False []),
           WalkContinue, None)"
    by (rule walkHelper_node) (rule walkHelper_rendered)
  then show ?thesis by (simp add: rendered_def Walk_def)
qed

lemma Walk_rendered: "Walk n walker w = (w @ rendered n, None)"
  by (simp add: Walk_def walkHelper_rendered)

lemma walkChildren_rendered:
  "walkChildren walker cs w = (w @ rendered_children cs, WalkContinue, None)"
  by (rule walkChildren_of) (rule walkHelper_rendered)

lemma digits_digit: "n < 10 \<Longrightarrow> digits n = [''0123456789'' ! n]"
  by (simp add: digits.simps)

lemma fmt_d_2: "fmt_d 2 = ''2''"
proof -
  have "digits 2 = ''2''" using digits_digit [of 2] by simp
  then show ?thesis by (simp add: fmt_d_def)
qed

section \<open>The claims\<close>

subsection \<open>HeaderSplitter\<close>

text \<open>
  Claim C1, as stated: for every input that begins with a line equal to \<open>---\<close> and
  contains a later line beginning with \<open>---\<close>, \<open>splitFrontmatter\<close> returns as metadata the
  bytes strictly between the opening line and the first such line, and as body the bytes
  strictly after that closing line. This fails: the source looks for the four-byte marker
  LF \<open>---\<close> and takes everything after the marker as body, so whatever follows \<open>---\<close> on
  the closing line stays in the body. For the input \<open>---\<close> LF \<open>a\<close> LF \<open>---b\<close> LF \<open>c\<close> the
  claim gives the body \<open>c\<close>, the source gives \<open>b\<close> LF \<open>c\<close>.
\<close>

theorem split_header_counterexample:
  "opens_with_delimiter ''---\<newline>a\<newline>---b\<newline>c'' \<and>
   has_later_delimiter ''---\<newline>a\<newline>---b\<newline>c'' \<and>
   spec_metadata ''---\<newline>a\<newline>---b\<newline>c'' = ''a'' \<and>
   spec_body ''---\<newline>a\<newline>---b\<newline>c'' = ''c'' \<and>
   splitFrontmatter ''---\<newline>a\<newline>---b\<newline>c'' = (Some ''a'', ''b\<newline>c'') \<and>
   splitFrontmatter ''---\<newline>a\<newline>---b\<newline>c'' \<noteq>
     (Some (spec_metadata ''---\<newline>a\<newline>---b\<newline>c''), spec_body ''---\<newline>a\<newline>---b\<newline>c'')"
  by (simp add: opens_with_delimiter_def has_later_delimiter_def spec_metadata_def spec_body_def
      interior_lines_def lines_after_closing_def delimiter_line_def splitFrontmatter_def Let_def)

text \<open>
  Claim C1, amended: for every input whose first line is exactly \<open>---\<close> ended by LF, whose
  second line does not begin with \<open>---\<close>, and that contains a later line beginning with
  \<open>---\<close>, \<open>splitFrontmatter\<close> returns as metadata exactly the bytes strictly between the
  opening line and the first such line (the lines between, joined by LF), and as body
  exactly the bytes after the three bytes \<open>---\<close> of that line, with one leading line break
  (LF, CR LF or CR) consumed; when that line is exactly \<open>---\<close> (ended by LF, by CR LF or by
  the end of the input) the body is exactly the bytes strictly after the closing line.
\<close>

theorem split_header_LF:
  assumes o: "hd (lines_of s) = ''---''"
    and l: "has_later_delimiter s"
    and n: "\<not> delimiter_line (hd (tl (lines_of s)))"
  shows "splitFrontmatter s =
           (Some (spec_metadata s),
            consume_line_break (join_lines (drop 3 (closing_line s) # lines_after_closing s)))
         \<and> (closing_line s = ''---'' \<or> closing_line s = ''---'' @ [CR] \<longrightarrow>
              splitFrontmatter s = (Some (spec_metadata s), spec_body s))"
proof -
  define r where "r = join_lines (tl (lines_of s))"
  from l have ne: "tl (lines_of s) \<noteq> []" by (auto simp: has_later_delimiter_def)
  from lines_decompose [OF ne] o have s: "s = ''---'' @ LF # r" by (simp add: r_def)
  then have "lines_of s = ''---'' # lines_of r" by simp
  then have L: "tl (lines_of s) = lines_of r" by simp
  obtain l0 ls where ls: "lines_of r = l0 # ls" by (cases "lines_of r") auto
  from n L ls have n0: "\<not> delimiter_line l0" by simp
  from l L ls n0 have "list_ex delimiter_line (tl (lines_of r))"
    by (simp add: has_later_delimiter_def)
  with index_None_lines [of r] obtain i where i: "index r ''\<newline>---'' = Some i"
    by (cases "index r ''\<newline>---''") auto
  have p: "hasPrefix s ''---\<newline>''" using s by simp
  have d: "drop 4 s = r" using s by simp
  from split_eval [of s] p i d
  have sp: "splitFrontmatter s = (Some (take i r), consume_line_break (drop (i + 4) r))" by simp
  from index_lines [OF i] ls n0
  have m: "take i r = spec_metadata s"
    and b: "drop (i + 4) r = join_lines (drop 3 (closing_line s) # lines_after_closing s)"
    by (simp_all add: spec_metadata_def interior_lines_def closing_line_def lines_after_closing_def L)
  from sp m b show ?thesis
    by (simp add: consume_after_marker spec_body_def)
qed

theorem split_header_LF_witness:
  "hd (lines_of ''---\<newline>title: Report\<newline>---\<newline># Hi\<newline>'') = ''---'' \<and>
   has_later_delimiter ''---\<newline>title: Report\<newline>---\<newline># Hi\<newline>'' \<and>
   \<not> delimiter_line (hd (tl (lines_of ''---\<newline>title: Report\<newline>---\<newline># Hi\<newline>''))) \<and>
   closing_line ''---\<newline>title: Report\<newline>---\<newline># Hi\<newline>'' = ''---'' \<and>
   splitFrontmatter ''---\<newline>title: Report\<newline>---\<newline># Hi\<newline>'' = (Some ''title: Report'', ''# Hi\<newline>'')"
proof -
  let ?s = "''---\<newline>title: Report\<newline>---\<newline># Hi\<newline>''"
  have o: "hd (lines_of ?s) = ''---''" by simp
  have l: "has_later_delimiter ?s" by (simp add: has_later_delimiter_def delimiter_line_def)
  have n: "\<not> delimiter_line (hd (tl (lines_of ?s)))" by (simp add: delimiter_line_def)
  have c: "closing_line ?s = ''---''" by (simp add: closing_line_def delimiter_line_def)
  have m: "spec_metadata ?s = ''title: Report''"
    by (simp add: spec_metadata_def interior_lines_def delimiter_line_def)
  have b: "spec_body ?s = ''# Hi\<newline>''"
    by (simp add: spec_body_def lines_after_closing_def delimiter_line_def)
  from split_header_LF [OF o l n]
  have "closing_line ?s = ''---'' \<or> closing_line ?s = ''---'' @ [CR] \<longrightarrow>
          splitFrontmatter ?s = (Some (spec_metadata ?s), spec_body ?s)"
    by (rule conjunct2)
  with c have "splitFrontmatter ?s = (Some (spec_metadata ?s), spec_body ?s)" by blast
  then have r: "splitFrontmatter ?s = (Some ''title: Report'', ''# Hi\<newline>'')"
    unfolding m b .
  from o l n c r show ?thesis by (intro conjI)
qed

text \<open>
  Claim C5 says that splitting is idempotent under reconstruction for every input with a
  well-formed header: the concatenation of \<open>---\<close> LF, the metadata bytes, LF \<open>---\<close> LF and
  the body splits into the same pair again. The input \<open>---\<close> LF \<open>---\<close> LF \<open>body\<close> has a
  well-formed header with an empty block, but the source does not find the closing line
  directly after the opening line: the search for LF \<open>---\<close> starts behind the LF of the
  opening line. It returns no metadata and the whole input as body, and the reconstruction
  from that pair splits into a present, empty block: not the same pair.
\<close>

theorem resplit_empty_block:
  "opens_with_delimiter ''---\<newline>---\<newline>body''
   \<and> has_later_delimiter ''---\<newline>---\<newline>body''
   \<and> splitFrontmatter ''---\<newline>---\<newline>body'' = (None, ''---\<newline>---\<newline>body'')
   \<and> splitFrontmatter (''---\<newline>'' @ slice_bytes None @ ''\<newline>---\<newline>'' @ ''---\<newline>---\<newline>body'')
         = (Some [], ''---\<newline>---\<newline>body'')
   \<and> splitFrontmatter (''---\<newline>'' @ slice_bytes None @ ''\<newline>---\<newline>'' @ ''---\<newline>---\<newline>body'')
         \<noteq> splitFrontmatter ''---\<newline>---\<newline>body''"
  by (simp add: opens_with_delimiter_def has_later_delimiter_def delimiter_line_def
      slice_bytes_def split_eval)

text \<open>
  Claim C6: for every input that does not begin with a \<open>---\<close> line, and for every input
  that begins with a \<open>---\<close> line but contains no later line beginning with \<open>---\<close>,
  \<open>splitFrontmatter\<close> returns the entire input unchanged as body with the metadata absent;
  the function has no error result.
\<close>

theorem split_absent:
  assumes "\<not> (opens_with_delimiter s \<and> has_later_delimiter s)"
  shows "splitFrontmatter s = (None, s)"
proof (cases "hasPrefix s ''---\<newline>''")
  case True
  then obtain r where s: "s = ''---'' @ LF # r"
    using hasPrefix_decompose [OF True] by simp
  then have l: "lines_of s = ''---'' # lines_of r" by simp
  with assms have nl: "\<not> list_ex delimiter_line (lines_of r)"
    by (simp add: opens_with_delimiter_def has_later_delimiter_def)
  have "index r ''\<newline>---'' = None"
  proof (cases "index r ''\<newline>---''")
    case (Some i)
    from later_of_index [OF Some] nl show ?thesis
      by (cases "lines_of r") (auto simp: list_ex_iff)
  qed simp
  with True s show ?thesis by (simp add: split_eval)
next
  case nLF: False
  show ?thesis
  proof (cases "hasPrefix s (''---'' @ [CR, LF])")
    case True
    then obtain r where s: "s = ''---'' @ CR # LF # r"
      using hasPrefix_decompose [OF True] by simp
    then have l: "lines_of s = (''---'' @ [CR]) # lines_of r" by simp
    with assms have nl: "\<not> list_ex delimiter_line (lines_of r)"
      by (simp add: opens_with_delimiter_def has_later_delimiter_def)
    have "index (LF # r) ''\<newline>---'' = None"
    proof (cases "index (LF # r) ''\<newline>---''")
      case (Some i)
      from later_of_index [OF Some] nl show ?thesis by simp
    qed simp
    with True s show ?thesis by (simp add: split_eval)
  next
    case False
    with nLF show ?thesis by (rule split_no_prefix)
  qed
qed

theorem split_absent_witness:
  "\<not> (opens_with_delimiter ''---\<newline>title: x\<newline>'' \<and> has_later_delimiter ''---\<newline>title: x\<newline>'')
   \<and> splitFrontmatter ''---\<newline>title: x\<newline>'' = (None, ''---\<newline>title: x\<newline>'')
   \<and> \<not> (opens_with_delimiter ''# Hi\<newline>---\<newline>'' \<and> has_later_delimiter ''# Hi\<newline>---\<newline>'')
   \<and> splitFrontmatter ''# Hi\<newline>---\<newline>'' = (None, ''# Hi\<newline>---\<newline>'')"
proof -
  have a: "\<not> (opens_with_delimiter ''---\<newline>title: x\<newline>'' \<and> has_later_delimiter ''---\<newline>title: x\<newline>'')"
    by (simp add: has_later_delimiter_def delimiter_line_def)
  have b: "\<not> (opens_with_delimiter ''# Hi\<newline>---\<newline>'' \<and> has_later_delimiter ''# Hi\<newline>---\<newline>'')"
    by (simp add: opens_with_delimiter_def)
  from a split_absent [OF a] b split_absent [OF b] show ?thesis by (intro conjI)
qed

subsection \<open>MetadataDecoder and the fatal error\<close>

text \<open>
  Claim C7, as stated: the program aborts with the fatal ParseError if and only if a
  non-empty metadata block was extracted and its bytes are not valid in the metadata
  serialization format. The source aborts whenever the decoder returns an error, and the
  decoder also returns one for bytes that are valid in the format but do not fit the
  record: the block \<open>title: [a, b]\<close> is well-formed, and the program takes the ParseError
  exit on it.
\<close>

theorem parse_error_counterexample:
  "slice_bytes (fst (splitFrontmatter ''---\<newline>title: [a, b]\<newline>---\<newline>body\<newline>'')) = ''title: [a, b]''
   \<and> well_formed_sample ''title: [a, b]''
   \<and> main unmarshal_sample id empty_document (Inr ''---\<newline>title: [a, b]\<newline>---\<newline>body\<newline>'')
       = Inl (ParseError ''yaml: unmarshal errors:\<newline>  line 1: cannot unmarshal !!seq into string'')
   \<and> exit_status (main unmarshal_sample id empty_document
         (Inr ''---\<newline>title: [a, b]\<newline>---\<newline>body\<newline>'')) = 1"
proof -
  have s: "splitFrontmatter ''---\<newline>title: [a, b]\<newline>---\<newline>body\<newline>''
             = (Some ''title: [a, b]'', ''body\<newline>'')"
    by (simp add: split_eval)
  show ?thesis
    by (simp add: s main_def slice_bytes_def unmarshal_sample_def well_formed_sample_def)
qed

text \<open>
  Claim C7, amended: the program ends with the fatal ParseError (exit status 1, the
  diagnostic \<open>error parsing frontmatter: ...\<close> on standard error, nothing on standard
  output) if and only if the input was read, a non-empty metadata block was extracted and
  the decoder returns an error for its bytes; when the block is absent or empty the
  decoder is not consulted: the result is the rendering with the zero-valued record,
  whatever the decoder is.
\<close>

theorem parse_error_iff:
  "((\<exists>e. main unmarshal quote parse stdin = Inl (ParseError e)) \<longleftrightarrow>
      (\<exists>input fm e. stdin = Inr input \<and> fst (splitFrontmatter input) = Some fm \<and> fm \<noteq> []
          \<and> unmarshal fm = Inl e))
   \<and> (main unmarshal quote parse stdin = Inl (ParseError e) \<longrightarrow>
        exit_status (main unmarshal quote parse stdin) = 1
        \<and> stderr_bytes (main unmarshal quote parse stdin) = ''error parsing frontmatter: '' @ e @ ''\<newline>''
        \<and> stdout_bytes (main unmarshal quote parse stdin) = [])
   \<and> (fst (splitFrontmatter input) = None \<or> fst (splitFrontmatter input) = Some [] \<longrightarrow>
        main unmarshal quote parse (Inr input) =
          Inr (renderBody parse (writePageSetup quote [] \<lparr>Title = []\<rparr>) (snd (splitFrontmatter input))))"
proof (intro conjI)
  show "(\<exists>e. main unmarshal quote parse stdin = Inl (ParseError e)) \<longleftrightarrow>
      (\<exists>input fm e. stdin = Inr input \<and> fst (splitFrontmatter input) = Some fm \<and> fm \<noteq> []
          \<and> unmarshal fm = Inl e)"
  proof (cases stdin)
    case (Inl err)
    then show ?thesis by (simp add: main_def)
  next
    case (Inr input)
    obtain fm body where sp: "splitFrontmatter input = (fm, body)"
      by (cases "splitFrontmatter input")
    show ?thesis
    proof (cases fm)
      case None
      with Inr sp show ?thesis by (simp add: main_def slice_bytes_def)
    next
      case (Some b)
      with Inr sp show ?thesis
        by (cases "unmarshal b") (auto simp: main_def slice_bytes_def Let_def)
    qed
  qed
next
  show "main unmarshal quote parse stdin = Inl (ParseError e) \<longrightarrow>
        exit_status (main unmarshal quote parse stdin) = 1
        \<and> stderr_bytes (main unmarshal quote parse stdin) = ''error parsing frontmatter: '' @ e @ ''\<newline>''
        \<and> stdout_bytes (main unmarshal quote parse stdin) = []"
    by simp
next
  show "fst (splitFrontmatter input) = None \<or> fst (splitFrontmatter input) = Some [] \<longrightarrow>
        main unmarshal quote parse (Inr input) =
          Inr (renderBody parse (writePageSetup quote [] \<lparr>Title = []\<rparr>) (snd (splitFrontmatter input)))"
    by (cases "splitFrontmatter input") (auto simp: main_def slice_bytes_def Let_def)
qed

theorem parse_error_iff_witness:
  "main (\<lambda>b. if b = ''title: ['' then Inl ''yaml: did not find expected node content'' else Inr \<lparr>Title = []\<rparr>)
        (\<lambda>s. s) (\<lambda>b. Node Document [])
        (Inr ''---\<newline>title: [\<newline>---\<newline>'')
     = Inl (ParseError ''yaml: did not find expected node content'')
   \<and> main (\<lambda>b. Inl ''unused'') (\<lambda>s. s) (\<lambda>b. Node Document []) (Inr ''plain\<newline>'')
     = Inr (renderBody (\<lambda>b. Node Document []) (writePageSetup (\<lambda>s. s) [] \<lparr>Title = []\<rparr>) ''plain\<newline>'')"
proof -
  let ?u = "\<lambda>b. if b = ''title: ['' then Inl ''yaml: did not find expected node content'' else Inr \<lparr>Title = []\<rparr>"
  let ?p = "\<lambda>b::string. Node Document []"
  let ?q = "\<lambda>s::string. s"
  have s1: "splitFrontmatter ''---\<newline>title: [\<newline>---\<newline>'' = (Some ''title: ['', [])"
    by (simp add: split_eval)
  have "\<exists>input fm e. (Inr ''---\<newline>title: [\<newline>---\<newline>'' :: string + string) = Inr input
          \<and> fst (splitFrontmatter input) = Some fm \<and> fm \<noteq> [] \<and> ?u fm = Inl e"
    using s1 by auto
  with parse_error_iff [of ?u ?q ?p "Inr ''---\<newline>title: [\<newline>---\<newline>''"]
  obtain e where e: "main ?u ?q ?p (Inr ''---\<newline>title: [\<newline>---\<newline>'') = Inl (ParseError e)"
    by blast
  have a: "main ?u ?q ?p (Inr ''---\<newline>title: [\<newline>---\<newline>'') = Inl (ParseError ''yaml: did not find expected node content'')"
    using e s1 by (simp add: main_def slice_bytes_def)
  have s2: "splitFrontmatter ''plain\<newline>'' = (None, ''plain\<newline>'')"
    by (simp add: split_no_prefix)
  have b: "main (\<lambda>b. Inl ''unused'') ?q ?p (Inr ''plain\<newline>'')
     = Inr (renderBody ?p (writePageSetup ?q [] \<lparr>Title = []\<rparr>) ''plain\<newline>'')"
    using parse_error_iff [of "\<lambda>b. Inl ''unused''" ?q ?p _ _ "''plain\<newline>''"] s2 by simp
  from a b show ?thesis by (rule conjI)
qed

subsection \<open>PreambleEmitter\<close>

text \<open>
  Claim C4: for every metadata record \<open>writePageSetup\<close> first appends, in order, the
  page-size directive, the text/font/language directive, the paragraph-style directive and
  a blank line, whatever the record is; then, if and only if the title is non-empty, the
  binding of the title string, a blank line, the centered bold 22pt block around the
  literal title text, the vertical-spacing directive and a blank line; with an empty
  title nothing follows the fixed part.
\<close>

theorem page_setup:
  "writePageSetup quote w meta =
     w @ ''#set page(paper: \"a4\")\<newline>''
       @ ''#set text(font: \"SimSun\", size: 12pt, lang: \"zh\")\<newline>''
       @ ''#set par(leading: 1.5em, first-line-indent: 2em)\<newline>''
       @ ''\<newline>''
       @ (if Title meta = [] then []
          else ''#let title = '' @ quote (Title meta) @ ''\<newline>''
             @ ''\<newline>''
             @ ''#align(center, text(size: 22pt, weight: \"bold\")['' @ Title meta @ ''])\<newline>''
             @ ''#v(1em)\<newline>''
             @ ''\<newline>'')"
  by (simp add: writePageSetup_def Let_def fprint_def fprintln_def)

subsection \<open>TreeRenderer\<close>

text \<open>
  Claim C2 says that the text of a code span is escaped by the rules of the output
  format's string literals before it is put between the quotes of the raw-inline
  directive. The source formats it with \<open>%s\<close> between two literal quotes, so the text is
  embedded byte for byte: a span text with a double quote or a backslash in it comes out
  unescaped, unlike the title, which \<open>writePageSetup\<close> formats with \<open>%q\<close>.
\<close>

theorem code_span_verbatim:
  "fst (walker (CodeSpan txt) True w) = w @ ''#raw(\"'' @ txt @ ''\")''
   \<and> fst (walker (CodeSpan ''a\"b'') True []) = ''#raw(\"a\"b\")''
   \<and> fst (walker (CodeSpan [CHR 0x5C, CHR ''n'']) True []) = ''#raw(\"'' @ [CHR 0x5C, CHR ''n''] @ ''\")''"
  by (simp add: walker_def fprint_def)

text \<open>
  Claim C3: for every node whose kind has no row in the mapping table (links, images,
  block quotes, raw embedded markup, any other node type), the function literal writes
  nothing on enter and on exit and returns \<open>WalkContinue\<close> with a \<open>nil\<close> error; such a node
  without children leaves no trace in the output.
\<close>

theorem unsupported_dropped:
  "\<not> mapped k \<Longrightarrow>
     walker k entering w = (w, WalkContinue, None) \<and> rendered (Node k []) = []"
  by (simp add: walker_unmapped rendered_Node rendered_children_def)

theorem unsupported_dropped_witness:
  "\<not> mapped RawHTML \<and> walker RawHTML True ''x'' = (''x'', WalkContinue, None)
   \<and> walker RawHTML False ''x'' = (''x'', WalkContinue, None) \<and> rendered (Node RawHTML []) = []"
  using unsupported_dropped [of RawHTML True "''x''"] unsupported_dropped [of RawHTML False "''x''"]
  by simp

text \<open>
  Claim C8: on enter, a fenced code block appends the opening fence, the lines of the block
  concatenated with the LF bytes at the very end trimmed (the concatenation is the content
  followed by a run of LF, and the content does not end in LF), the closing fence and a
  blank line; on exit it appends nothing. The lines \<open>a\<close> LF and \<open>b\<close> LF give exactly
  \<open>a\<close> LF \<open>b\<close> between the fences.
\<close>

theorem fenced_code_block:
  "fst (walker (FencedCodeBlock ls) True w) =
      w @ ''```\<newline>'' @ trimRight (concat ls) ''\<newline>'' @ ''\<newline>```\<newline>\<newline>''
   \<and> fst (walker (FencedCodeBlock ls) False w) = w
   \<and> (\<exists>k. concat ls = trimRight (concat ls) ''\<newline>'' @ replicate k LF)
   \<and> takeWhile (\<lambda>c. c = LF) (rev (trimRight (concat ls) ''\<newline>'')) = []
   \<and> rendered (Node (FencedCodeBlock [''a\<newline>'', ''b\<newline>'']) []) = ''```\<newline>a\<newline>b\<newline>```\<newline>\<newline>''"
  using trimRight_LF_decompose [of "concat ls"] trimRight_LF_end [of "concat ls"]
  by (simp add: rendered_Node rendered_children_def walker_def fprint_def fprintln_def)
     (simp add: trimRight_def)

text \<open>
  Claim C9, as stated: a heading of level L emits on enter the directive text
  \<open>heading(level=L)[\<close>. The bytes that the source writes are \<open>#heading(level: L)[\<close>; the
  text of the claim is not what is written, and it does not occur in the output.
\<close>

theorem heading_directive_counterexample:
  "fst (walker (Heading 2) True []) = ''#heading(level: 2)[''
   \<and> fst (walker (Heading 2) True []) \<noteq> ''heading(level=2)[''
   \<and> rendered (Node (Heading 2) [Node (Text ''Hi'' False) []]) = ''#heading(level: 2)[Hi]\<newline>\<newline>''
   \<and> index (rendered (Node (Heading 2) [Node (Text ''Hi'' False) []])) ''heading(level=2)['' = None"
  by (simp add: rendered_Node rendered_children_def fmt_d_2 walker_def fprint_def fprintln_def hasPrefix_def)

text \<open>
  Claim C9, amended: for every heading of level L the renderer appends on enter the bytes
  \<open>#heading(level: L)[\<close> with L in decimal, and on exit a closing bracket, a line break
  and one blank line, so that the walk of the node writes \<open>#heading(level: L)[\<close>, what the
  children write, and \<open>]\<close> LF LF; for level 2 the opening is \<open>#heading(level: 2)[\<close>.
\<close>

theorem heading_directive:
  "fst (walker (Heading L) True w) = w @ ''#heading(level: '' @ fmt_d L @ '')[''
   \<and> fst (walker (Heading L) False w) = w @ '']\<newline>\<newline>''
   \<and> rendered (Node (Heading L) cs) =
        ''#heading(level: '' @ fmt_d L @ '')['' @ rendered_children cs @ '']\<newline>\<newline>''
   \<and> rendered (Node (Heading 2) cs) =
        ''#heading(level: 2)['' @ rendered_children cs @ '']\<newline>\<newline>''"
  by (simp add: rendered_Node fmt_d_2 walker_def fprint_def fprintln_def)

text \<open>
  Claim C10: for every node of a kind without a mapping row the traversal still goes into
  the children in order: the walk of the node writes exactly what the walks of its children
  write, one after the other, so a text run inside a link or a block quote is still
  written although the node itself contributes nothing.
\<close>

theorem unsupported_children_rendered:
  "\<not> mapped k \<Longrightarrow>
     rendered (Node k cs) = concat (map rendered cs)
     \<and> Walk (Node k cs) walker w = (w @ concat (map rendered cs), None)
     \<and> walkChildren walker cs w = (w @ concat (map rendered cs), WalkContinue, None)"
  using walker_unmapped [of k True "[]"] walker_unmapped [of k False "[]"]
  by (simp add: Walk_rendered walkChildren_rendered rendered_Node rendered_children_def)

theorem unsupported_children_rendered_witness:
  "\<not> mapped Link \<and>
   rendered (Node Link [Node (Text ''see '' False) [], Node (Emphasis 1) [Node (Text ''this'' False) []]])
     = ''see #emph[this]''"
proof -
  have "\<not> mapped Link" by simp
  from unsupported_children_rendered [OF this,
      of "[Node (Text ''see '' False) [], Node (Emphasis 1) [Node (Text ''this'' False) []]]" "[]"]
  show ?thesis
    by (simp add: rendered_Node rendered_children_def walker_def fprint_def)
qed

end
